theory Spec2Isabelle
  imports Complex_Main "HOL-Library.Sublist"
begin

section \<open>The catalog data model\<close>

text \<open>
  \<^verbatim>\<open>translate_po.py\<close> works on the entries of a PO catalog as the parser library hands
  them over: an entry has a source text \<open>msgid\<close>, a translation \<open>msgstr\<close>, a list of flags,
  a list of occurrences (pairs of a file name and a line string) and the line number at
  which it was read. Strings are lists of characters of type \<open>char\<close>; a longer
  character of a text is several of them, which matters to nothing but the length of the
  excerpts \<^verbatim>\<open>[:50]\<close> in the printed lines.
\<close>

type_synonym occurrence = "string \<times> string"

record entry =
  msgid :: string
  msgstr :: string
  flags :: "string list"
  occurrences :: "occurrence list"
  linenum :: nat

subsection \<open>Strings\<close>

text \<open>
  \<^verbatim>\<open>str.lower()\<close> on the letters \<open>A\<close> to \<open>Z\<close>; every other character is kept. No character
  outside \<open>A\<close> to \<open>Z\<close> is lowered to one of the letters of \<open>report\<close>, so this is all of
  \<open>lower\<close> that the test \<^verbatim>\<open>'report' in filename.lower()\<close> can see.
\<close>

definition lower_char :: "char \<Rightarrow> char" where
  "lower_char c =
     (if (65::nat) \<le> of_char c \<and> of_char c \<le> (90::nat)
      then char_of (of_char c + (32::nat)) else c)"

definition lower :: "string \<Rightarrow> string" where
  "lower s = map lower_char s"

text \<open>\<^verbatim>\<open>sub in s\<close> on strings: \<open>sub\<close> occurs in \<open>s\<close> as a contiguous block.\<close>

fun str_in :: "string \<Rightarrow> string \<Rightarrow> bool" where
  "str_in sub [] = (sub = [])"
| "str_in sub (c # cs) = (prefix sub (c # cs) \<or> str_in sub cs)"

text \<open>\<^verbatim>\<open>str(n)\<close> for a natural number: its decimal digits.\<close>

definition digit_char :: "nat \<Rightarrow> char" where
  "digit_char d = char_of (48 + d)"

function str_nat :: "nat \<Rightarrow> string" where
  "str_nat n = (if n < 10 then [digit_char n] else str_nat (n div 10) @ [digit_char (n mod 10)])"
  by pat_completeness auto
termination
  by (relation "measure id") auto

declare str_nat.simps [simp del]

subsection \<open>Exceptions, the outside world and what the program does to it\<close>

text \<open>
  The exceptions the library calls raise are instances of \<^verbatim>\<open>Exception\<close>; the program tells
  \<^verbatim>\<open>FileNotFoundError\<close> from the rest. Each carries the text that \<^verbatim>\<open>str(e)\<close> gives.
  Interrupts delivered from outside the program are not part of the model.
\<close>

datatype exn = FileNotFoundError string | OtherException string

fun exn_str :: "exn \<Rightarrow> string" where
  "exn_str (FileNotFoundError m) = m"
| "exn_str (OtherException m) = m"

text \<open>
  What \<^verbatim>\<open>translator.translate(text, dest=...)\<close> does: it raises, or it returns a result
  object, which is \<open>None\<close> when the object is falsy and \<open>Some text\<close> when it carries the
  string \<open>text\<close> (possibly empty).
\<close>

datatype response = Raises exn | Returns "string option"

text \<open>
  The effects of a run, in the order in which they happen: a line printed, a call of
  \<^verbatim>\<open>time.sleep\<close> with its number of seconds, a call of the translation service with the
  text and the target language, and a call of \<^verbatim>\<open>po.save()\<close> with the catalog it writes.
\<close>

datatype event =
    Print string
  | Sleep rat
  | Translate string string
  | Save "entry list"

text \<open>
  The libraries are parameters of the model. \<open>pofile\<close> is \<^verbatim>\<open>polib.pofile\<close> on a string,
  \<open>new_translator\<close> is the constructor \<^verbatim>\<open>Translator()\<close> giving the initial state \<open>'w\<close> of the
  translation client, \<open>translate\<close> is one call of the service in a state of the client,
  and \<open>save\<close> tells whether writing a catalog raises.
\<close>

record 'w env =
  pofile :: "string \<Rightarrow> exn + entry list"
  new_translator :: "exn + 'w"
  translate :: "'w \<Rightarrow> string \<Rightarrow> string \<Rightarrow> response \<times> 'w"
  save :: "entry list \<Rightarrow> exn option"

text \<open>
  What the parser library does with the string it is given: \<^verbatim>\<open>polib.pofile\<close> takes the
  path of a file or the content itself. When the string names a file it parses that file,
  and when it names no file it parses the string as PO text; it does not raise for a
  missing file. Here \<open>files\<close> gives, for a path that names a file, what parsing the file
  gives, and \<open>parse_text\<close> is the parser on a string.
\<close>

definition polib_pofile ::
  "(string \<Rightarrow> (exn + entry list) option) \<Rightarrow> (string \<Rightarrow> exn + entry list) \<Rightarrow>
   string \<Rightarrow> exn + entry list" where
  "polib_pofile files parse_text path =
     (case files path of Some parsed \<Rightarrow> parsed | None \<Rightarrow> parse_text path)"

section \<open>\<^verbatim>\<open>translate_po_file\<close>\<close>

subsection \<open>The pre-filter and the skip loop\<close>

text \<open>
  Entries are objects shared between the catalog and the work lists, and the translation
  loop mutates them in place. The catalog is therefore a store, the list of its entries,
  and a reference to an entry is its position in that list.

  \<^verbatim>\<open>[entry for entry in po if not entry.msgstr and entry.msgid]\<close>
\<close>

definition potentially_translatable :: "entry list \<Rightarrow> nat list" where
  "potentially_translatable po =
     filter (\<lambda>r. msgstr (po ! r) = [] \<and> msgid (po ! r) \<noteq> []) [0..<length po]"

text \<open>
  The inner loop over \<^verbatim>\<open>entry.occurrences\<close>: the file name of the first occurrence whose
  lowered file name contains \<open>report\<close>, if there is one. The line string is not looked at.
\<close>

fun report_occurrence :: "occurrence list \<Rightarrow> string option" where
  "report_occurrence [] = None"
| "report_occurrence ((filename, line_num_str) # rest) =
     (if str_in ''report'' (lower filename) then Some filename else report_occurrence rest)"

record scan =
  skipped_count :: nat
  entries_to_translate :: "nat list"
  scan_out :: "event list"

text \<open>The first loop: skip an entry for a report occurrence, then for the fuzzy flag.\<close>

fun skip_loop :: "entry list \<Rightarrow> nat list \<Rightarrow> scan \<Rightarrow> scan" where
  "skip_loop po [] s = s"
| "skip_loop po (r # rs) s =
     (case report_occurrence (occurrences (po ! r)) of
        Some filename \<Rightarrow>
          skip_loop po rs
            (s\<lparr>skipped_count := skipped_count s + 1,
               scan_out := scan_out s @
                 [Print (''Skipping entry (line '' @ str_nat (linenum (po ! r)) @
                         '') due to 'report' in occurrences: '' @ filename)]\<rparr>)
      | None \<Rightarrow>
          if ''fuzzy'' \<in> set (flags (po ! r))
          then skip_loop po rs
            (s\<lparr>skipped_count := skipped_count s + 1,
               scan_out := scan_out s @
                 [Print (''Skipping fuzzy entry (line '' @ str_nat (linenum (po ! r)) @
                         ''): '' @ take 50 (msgid (po ! r)) @ ''...'')]\<rparr>)
          else skip_loop po rs (s\<lparr>entries_to_translate := entries_to_translate s @ [r]\<rparr>))"

subsection \<open>The translation loop\<close>

definition target_language :: string where
  "target_language = ''ar''"

record 'w run =
  catalog :: "entry list"
  client :: 'w
  translated_count :: nat
  out :: "event list"

text \<open>
  One iteration of the second loop, for the entry referenced by \<open>r\<close> at position \<open>i\<close> of
  the \<open>n\<close> entries to translate: announce, sleep, call the service, and then either store
  the text (a truthy result with a non-empty text), report an empty result, or report the
  exception and go on.
\<close>

definition translate_entry :: "'w env \<Rightarrow> nat \<Rightarrow> nat \<Rightarrow> nat \<Rightarrow> 'w run \<Rightarrow> 'w run" where
  "translate_entry env n i r s =
     (let entry = catalog s ! r;
          original_text = msgid entry;
          called = out s @
            [Print (''Translating ('' @ str_nat (i + 1) @ ''/'' @ str_nat n @ ''): '' @
                    take 50 original_text @ ''...''),
             Sleep (1 / 2),
             Translate original_text target_language];
          failed = Print (''  -> Translation failed or returned empty for: '' @
                          take 50 original_text @ ''...'')
      in case translate env (client s) original_text target_language of
           (Raises e, w) \<Rightarrow>
             s\<lparr>client := w,
               out := called @
                 [Print (''  -> Error translating '' @ [CHR 0x27] @ take 50 original_text @
                         ''...': '' @ exn_str e)]\<rparr>
         | (Returns None, w) \<Rightarrow> s\<lparr>client := w, out := called @ [failed]\<rparr>
         | (Returns (Some text), w) \<Rightarrow>
             if text \<noteq> []
             then s\<lparr>catalog := (catalog s)
                      [r := entry\<lparr>msgstr := text,
                                  flags := (if ''fuzzy'' \<in> set (flags entry)
                                            then remove1 ''fuzzy'' (flags entry)
                                            else flags entry)\<rparr>],
                    client := w,
                    translated_count := translated_count s + 1,
                    out := called @ [Print (''  -> Translated to: '' @ take 50 text @ ''...'')]\<rparr>
             else s\<lparr>client := w, out := called @ [failed]\<rparr>)"

text \<open>\<^verbatim>\<open>for i, entry in enumerate(entries_to_translate)\<close>, with \<open>n\<close> the length of the list.\<close>

fun translate_loop :: "'w env \<Rightarrow> nat \<Rightarrow> nat \<Rightarrow> nat list \<Rightarrow> 'w run \<Rightarrow> 'w run" where
  "translate_loop env n i [] s = s"
| "translate_loop env n i (r # rs) s =
     translate_loop env n (i + 1) rs (translate_entry env n i r s)"

subsection \<open>The body of the \<^verbatim>\<open>try\<close> block and its handlers\<close>

text \<open>From the first \<^verbatim>\<open>print\<close> to the end of the skip loop.\<close>

definition scan_catalog :: "string \<Rightarrow> entry list \<Rightarrow> scan" where
  "scan_catalog filepath po =
     skip_loop po (potentially_translatable po)
       \<lparr>skipped_count = 0, entries_to_translate = [],
        scan_out =
          [Print (''Processing file: '' @ filepath),
           Print (''Found '' @ str_nat (length po) @ '' entries.''),
           Print (''Found '' @ str_nat (length (potentially_translatable po)) @
                  '' entries with empty msgstr.'')]\<rparr>"

text \<open>The state in which the translation loop starts.\<close>

definition loop_start :: "string \<Rightarrow> entry list \<Rightarrow> 'w \<Rightarrow> 'w run" where
  "loop_start filepath po w =
     (let sc = scan_catalog filepath po
      in \<lparr>catalog = po, client = w, translated_count = 0,
          out = scan_out sc @
            [Print (''Attempting to translate '' @
                    str_nat (length (entries_to_translate sc)) @ '' entries.'')]\<rparr>)"

text \<open>From the first \<^verbatim>\<open>print\<close> to the end of the translation loop.\<close>

definition translate_all :: "'w env \<Rightarrow> string \<Rightarrow> entry list \<Rightarrow> 'w \<Rightarrow> 'w run" where
  "translate_all env filepath po w =
     (let todo = entries_to_translate (scan_catalog filepath po)
      in translate_loop env (length todo) 0 todo (loop_start filepath po w))"

text \<open>
  What a run leaves behind: the exception that leaves the function, if any; the catalog
  object as it is at the end (\<open>None\<close> when it was never loaded); and the effects in order.
\<close>

record outcome =
  propagated :: "exn option"
  po_after :: "entry list option"
  events :: "event list"

definition skipped_note :: "nat \<Rightarrow> event list" where
  "skipped_note skipped =
     (if skipped > 0
      then [Print (''Skipped a total of '' @ str_nat skipped @
                   '' entries (already translated, fuzzy, or report-related).'' @
                   '' Note: The count includes entries skipped in the initial filter.'')]
      else [])"

text \<open>
  The body of the \<^verbatim>\<open>try\<close> block. An exception of \<^verbatim>\<open>polib.pofile\<close>, of \<^verbatim>\<open>Translator()\<close> or of
  \<^verbatim>\<open>po.save()\<close> leaves the block; an exception of a translation call does not.
\<close>

definition try_body :: "'w env \<Rightarrow> string \<Rightarrow> outcome" where
  "try_body env filepath =
     (case pofile env filepath of
        Inl e \<Rightarrow> \<lparr>propagated = Some e, po_after = None, events = []\<rparr>
      | Inr po \<Rightarrow>
         (case new_translator env of
            Inl e \<Rightarrow> \<lparr>propagated = Some e, po_after = Some po, events = []\<rparr>
          | Inr w \<Rightarrow>
             (let s = translate_all env filepath po w;
                  skipped = skipped_count (scan_catalog filepath po)
              in if translated_count s > 0
                 then
                   (let saving = out s @
                          [Print (''Saving translated file: '' @ filepath), Save (catalog s)]
                    in case save env (catalog s) of
                         Some e \<Rightarrow>
                           \<lparr>propagated = Some e, po_after = Some (catalog s), events = saving\<rparr>
                       | None \<Rightarrow>
                           \<lparr>propagated = None, po_after = Some (catalog s),
                            events = saving @
                              [Print (''Successfully translated '' @
                                      str_nat (translated_count s) @ '' new entries.'')] @
                              skipped_note skipped\<rparr>)
                 else
                   \<lparr>propagated = None, po_after = Some (catalog s),
                    events = out s @ [Print ''No new entries were translated in this run.''] @
                             skipped_note skipped\<rparr>)))"

text \<open>
  The two handlers: \<^verbatim>\<open>except FileNotFoundError\<close> first, then \<^verbatim>\<open>except Exception as e\<close>.
  Each prints one line and the function returns normally.
\<close>

fun handler :: "string \<Rightarrow> exn \<Rightarrow> event" where
  "handler filepath (FileNotFoundError m) = Print (''Error: File not found at '' @ filepath)"
| "handler filepath e = Print (''An unexpected error occurred: '' @ exn_str e)"

definition translate_po_file :: "'w env \<Rightarrow> string \<Rightarrow> outcome" where
  "translate_po_file env filepath =
     (let t = try_body env filepath
      in case propagated t of
           None \<Rightarrow> t
         | Some e \<Rightarrow> t\<lparr>propagated := None, events := events t @ [handler filepath e]\<rparr>)"

section \<open>The command line\<close>

text \<open>
  The parser has one positional argument \<open>filepath\<close> with \<^verbatim>\<open>nargs='?'\<close> and default \<open>None\<close>.
  On command-line strings that do not start with \<open>-\<close> it fills \<open>filepath\<close> from at most
  one string and rejects a second one with a usage error. A string that starts with \<open>-\<close>
  goes through the option rules of the argument parser (\<open>-h\<close>, \<open>--\<close>, unknown options),
  which the program does not configure; the model only records that they apply.
\<close>

datatype namespace = Namespace "string option" | Usage_error | Option_rules

fun option_string :: "string \<Rightarrow> bool" where
  "option_string [] = False"
| "option_string (c # cs) = (c = CHR ''-'')"

definition parse_args :: "string list \<Rightarrow> namespace" where
  "parse_args argv =
     (if list_ex option_string argv then Option_rules
      else case argv of
             [] \<Rightarrow> Namespace None
           | [a] \<Rightarrow> Namespace (Some a)
           | _ \<Rightarrow> Usage_error)"

definition default_filepath :: string where
  "default_filepath = ''/opt/odoo18/projects/bb/bbb/i18n/ar_001.po''"

text \<open>
  The \<^verbatim>\<open>__main__\<close> block: the lines it prints itself and the run of \<open>translate_po_file\<close>
  with the path it ran on; or the parser left the program with a usage error; or the
  command line is left to the option rules.
\<close>

datatype process = Ran "event list" string outcome | Parser_exit | By_option_rules

definition main :: "'w env \<Rightarrow> string list \<Rightarrow> process" where
  "main env argv =
     (case parse_args argv of
        Namespace None \<Rightarrow>
          Ran [Print (''No filepath provided via command line. Using default: '' @
                      default_filepath)]
              default_filepath (translate_po_file env default_filepath)
      | Namespace (Some filepath) \<Rightarrow> Ran [] filepath (translate_po_file env filepath)
      | Usage_error \<Rightarrow> Parser_exit
      | Option_rules \<Rightarrow> By_option_rules)"

section \<open>Reading the effects of a run\<close>

text \<open>The texts sent to the translation service, in the order of the calls.\<close>

fun calls :: "event list \<Rightarrow> string list" where
  "calls [] = []"
| "calls (Translate text lang # evs) = text # calls evs"
| "calls (ev # evs) = calls evs"

text \<open>The catalogs written by \<^verbatim>\<open>po.save()\<close>, in order.\<close>

fun saves :: "event list \<Rightarrow> entry list list" where
  "saves [] = []"
| "saves (Save q # evs) = q # saves evs"
| "saves (ev # evs) = saves evs"

text \<open>
  Every call of the translation service comes directly after a sleep of half a second;
  \<open>prev\<close> is the event before the list, if there is one.
\<close>

fun delayed :: "event option \<Rightarrow> event list \<Rightarrow> bool" where
  "delayed prev [] = True"
| "delayed prev (Translate text lang # evs) =
     (prev = Some (Sleep (1 / 2)) \<and> delayed (Some (Translate text lang)) evs)"
| "delayed prev (ev # evs) = delayed (Some ev) evs"

text \<open>
  The state of the run when the translation loop has done the first \<open>k\<close> of the entries
  to translate and is about to take the next one.
\<close>

definition loop_state :: "'w env \<Rightarrow> string \<Rightarrow> entry list \<Rightarrow> 'w \<Rightarrow> nat \<Rightarrow> 'w run" where
  "loop_state env filepath po w k =
     (let todo = entries_to_translate (scan_catalog filepath po)
      in translate_loop env (length todo) 0 (take k todo) (loop_start filepath po w))"

text \<open>The condition under which the two loops let an entry through to the service.\<close>

definition eligible :: "entry \<Rightarrow> bool" where
  "eligible e \<longleftrightarrow>
     msgstr e = [] \<and> msgid e \<noteq> [] \<and> report_occurrence (occurrences e) = None \<and>
     ''fuzzy'' \<notin> set (flags e)"

section \<open>A small catalog and three environments to run it in\<close>

text \<open>
  The only file is \<open>ar.po\<close>, which holds the catalog \<open>demo_po\<close>. Of the parser on a string
  the environments need two facts: the empty text is an empty catalog, and a string that
  is not PO text, such as a file name, is a syntax error.
  In \<open>demo_env\<close> the translation service fails on its second call and answers every other
  one; in \<open>broken_env\<close> the translator cannot be constructed; in \<open>silent_env\<close> the service
  answers every call with a falsy result.
\<close>

definition demo_po :: "entry list" where
  "demo_po =
     [\<lparr>msgid = ''Hello'', msgstr = [], flags = [],
       occurrences = [(''views/menu.xml'', ''3'')], linenum = 5\<rparr>,
      \<lparr>msgid = ''Total'', msgstr = [], flags = [],
       occurrences = [(''views/menu.xml'', ''9''), (''Report/sale.xml'', ''7'')], linenum = 9\<rparr>,
      \<lparr>msgid = ''Name'', msgstr = ''Ism'', flags = [],
       occurrences = [], linenum = 13\<rparr>,
      \<lparr>msgid = ''Date'', msgstr = [], flags = [''fuzzy''],
       occurrences = [], linenum = 17\<rparr>,
      \<lparr>msgid = [], msgstr = [], flags = [],
       occurrences = [], linenum = 21\<rparr>,
      \<lparr>msgid = ''Bye'', msgstr = [], flags = [],
       occurrences = [(''models/a.py'', ''12'')], linenum = 25\<rparr>,
      \<lparr>msgid = ''Yes'', msgstr = [], flags = [],
       occurrences = [], linenum = 29\<rparr>]"

definition demo_files :: "string \<Rightarrow> (exn + entry list) option" where
  "demo_files path = (if path = ''ar.po'' then Some (Inr demo_po) else None)"

definition demo_parse_text :: "string \<Rightarrow> exn + entry list" where
  "demo_parse_text t =
     (if t = [] then Inr [] else Inl (OtherException ''Syntax error in po file (line 1)''))"

definition demo_env :: "nat env" where
  "demo_env =
     \<lparr>pofile = polib_pofile demo_files demo_parse_text,
      new_translator = Inr 0,
      translate = (\<lambda>w text lang.
         (if w = 1 then Raises (OtherException ''timed out'')
          else Returns (Some (''ar:'' @ text)), w + 1)),
      save = (\<lambda>q. None)\<rparr>"

definition broken_env :: "nat env" where
  "broken_env = demo_env\<lparr>new_translator := Inl (OtherException ''no network'')\<rparr>"

definition silent_env :: "nat env" where
  "silent_env = demo_env\<lparr>translate := (\<lambda>w text lang. (Returns None, w))\<rparr>"

section \<open>Properties of the loops\<close>

subsection \<open>Which entries reach the translation loop\<close>

lemma str_in_sublist: "str_in sub s \<longleftrightarrow> sublist sub s"
  by (induction s) (simp_all add: sublist_Cons_right)

lemma report_occurrence_None:
  "report_occurrence occs = None \<longleftrightarrow>
     (\<forall>(filename, line) \<in> set occs. \<not> str_in ''report'' (lower filename))"
  by (induction occs rule: report_occurrence.induct) auto

lemma report_occurrence_mentions:
  "(filename, line) \<in> set occs \<Longrightarrow> str_in ''report'' (lower filename) \<Longrightarrow>
   report_occurrence occs \<noteq> None"
  by (auto simp: report_occurrence_None)

text \<open>
  The parser library gives every occurrence a line string that is empty or made of
  digits. Such a string never contains \<open>report\<close>, so an occurrence can mention \<open>report\<close>
  in its file name only, which is where the program looks.
\<close>

lemma line_string_never_mentions_report:
  assumes "\<forall>c \<in> set line. (48::nat) \<le> of_char c \<and> of_char c \<le> (57::nat)"
  shows "\<not> str_in ''report'' (lower line)"
proof
  assume "str_in ''report'' (lower line)"
  then have "sublist ''report'' (lower line)"
    by (simp add: str_in_sublist)
  then have "set ''report'' \<subseteq> set (lower line)"
    by (rule set_mono_sublist)
  then have "CHR ''r'' \<in> set (map lower_char line)"
    by (simp add: lower_def)
  then obtain c where c: "c \<in> set line" "lower_char c = CHR ''r''"
    by auto
  then have digit: "(48::nat) \<le> of_char c" "of_char c \<le> (57::nat)"
    using assms by auto
  then have "lower_char c = c"
    by (simp add: lower_char_def)
  with c(2) have "of_char c = (114::nat)"
    by simp
  with digit show False
    by simp
qed

lemma skip_loop_entries:
  "entries_to_translate (skip_loop po rs s) =
     entries_to_translate s @
     filter (\<lambda>r. report_occurrence (occurrences (po ! r)) = None \<and>
                 ''fuzzy'' \<notin> set (flags (po ! r))) rs"
  by (induction rs arbitrary: s) (auto split: option.splits)

lemma entries_to_translate_scan:
  "entries_to_translate (scan_catalog filepath po) =
     filter (\<lambda>r. eligible (po ! r)) [0..<length po]"
  by (auto simp: scan_catalog_def skip_loop_entries potentially_translatable_def eligible_def
           intro: filter_cong)

lemma translate_entry_length:
  "length (catalog (translate_entry env n i r s)) = length (catalog s)"
  by (simp add: translate_entry_def Let_def split: prod.splits response.splits option.splits)

lemma translate_entry_other:
  "j \<noteq> r \<Longrightarrow> catalog (translate_entry env n i r s) ! j = catalog s ! j"
  by (simp add: translate_entry_def Let_def split: prod.splits response.splits option.splits)

lemma translate_entry_msgid:
  "msgid (catalog (translate_entry env n i r s) ! j) = msgid (catalog s ! j)"
  by (cases "j = r"; cases "r < length (catalog s)")
     (simp_all add: translate_entry_def Let_def list_update_beyond
        split: prod.splits response.splits option.splits)

lemma translate_entry_out:
  "\<exists>a b. out (translate_entry env n i r s) =
     out s @ [Print a, Sleep (1 / 2), Translate (msgid (catalog s ! r)) target_language, Print b]"
  by (simp add: translate_entry_def Let_def split: prod.splits response.splits option.splits)

lemma translate_loop_length:
  "length (catalog (translate_loop env n i rs s)) = length (catalog s)"
  by (induction rs arbitrary: i s) (simp_all add: translate_entry_length)

lemma translate_loop_other:
  "j \<notin> set rs \<Longrightarrow> catalog (translate_loop env n i rs s) ! j = catalog s ! j"
  by (induction rs arbitrary: i s) (simp_all add: translate_entry_other)

lemma translate_loop_msgid:
  "msgid (catalog (translate_loop env n i rs s) ! j) = msgid (catalog s ! j)"
  by (induction rs arbitrary: i s) (simp_all add: translate_entry_msgid)

lemma translate_loop_append:
  "translate_loop env n i (xs @ ys) s =
     translate_loop env n (i + length xs) ys (translate_loop env n i xs s)"
  by (induction xs arbitrary: i s) simp_all

lemma calls_append: "calls (xs @ ys) = calls xs @ calls ys"
  by (induction xs rule: calls.induct) simp_all

lemma saves_append: "saves (xs @ ys) = saves xs @ saves ys"
  by (induction xs rule: saves.induct) simp_all

lemma delayed_append:
  "delayed prev (xs @ ys) \<longleftrightarrow>
     delayed prev xs \<and> delayed (if xs = [] then prev else Some (last xs)) ys"
  by (induction prev xs rule: delayed.induct) auto

lemma translate_loop_calls:
  "calls (out (translate_loop env n i rs s)) =
     calls (out s) @ map (\<lambda>r. msgid (catalog s ! r)) rs"
proof (induction rs arbitrary: i s)
  case Nil
  then show ?case by simp
next
  case (Cons r rs)
  obtain a b where o: "out (translate_entry env n i r s) =
      out s @ [Print a, Sleep (1 / 2), Translate (msgid (catalog s ! r)) target_language, Print b]"
    using translate_entry_out by blast
  show ?case
    by (simp add: Cons.IH o calls_append translate_entry_msgid)
qed

lemma translate_loop_saves:
  "saves (out (translate_loop env n i rs s)) = saves (out s)"
proof (induction rs arbitrary: i s)
  case Nil
  then show ?case by simp
next
  case (Cons r rs)
  obtain a b where o: "out (translate_entry env n i r s) =
      out s @ [Print a, Sleep (1 / 2), Translate (msgid (catalog s ! r)) target_language, Print b]"
    using translate_entry_out by blast
  show ?case
    by (simp add: Cons.IH o saves_append)
qed

lemma translate_loop_delayed:
  "delayed prev (out s) \<Longrightarrow> delayed prev (out (translate_loop env n i rs s))"
proof (induction rs arbitrary: i s)
  case Nil
  then show ?case by simp
next
  case (Cons r rs)
  obtain a b where o: "out (translate_entry env n i r s) =
      out s @ [Print a, Sleep (1 / 2), Translate (msgid (catalog s ! r)) target_language, Print b]"
    using translate_entry_out by blast
  have "delayed prev (out (translate_entry env n i r s))"
    using Cons.prems by (simp add: o delayed_append)
  then show ?case
    by (simp add: Cons.IH)
qed

subsection \<open>What the two loops print and leave alone\<close>

lemma skip_loop_out:
  "\<exists>ms. scan_out (skip_loop po rs s) = scan_out s @ map Print ms"
proof (induction rs arbitrary: s)
  case Nil
  show ?case by (rule exI [of _ "[]"]) simp
next
  case (Cons r rs)
  show ?case
  proof (cases "report_occurrence (occurrences (po ! r))")
    case (Some filename)
    let ?m = "''Skipping entry (line '' @ str_nat (linenum (po ! r)) @
              '') due to 'report' in occurrences: '' @ filename"
    obtain ms where "scan_out (skip_loop po (r # rs) s) = (scan_out s @ [Print ?m]) @ map Print ms"
      using Cons.IH [of "s\<lparr>skipped_count := skipped_count s + 1,
               scan_out := scan_out s @ [Print ?m]\<rparr>"] Some by auto
    then show ?thesis by (intro exI [of _ "?m # ms"]) simp
  next
    case None
    show ?thesis
    proof (cases "''fuzzy'' \<in> set (flags (po ! r))")
      case True
      let ?m = "''Skipping fuzzy entry (line '' @ str_nat (linenum (po ! r)) @
                         ''): '' @ take 50 (msgid (po ! r)) @ ''...''"
      obtain ms where "scan_out (skip_loop po (r # rs) s) = (scan_out s @ [Print ?m]) @ map Print ms"
        using Cons.IH [of "s\<lparr>skipped_count := skipped_count s + 1,
               scan_out := scan_out s @ [Print ?m]\<rparr>"] None True by auto
      then show ?thesis by (intro exI [of _ "?m # ms"]) simp
    next
      case False
      then show ?thesis
        using Cons.IH [of "s\<lparr>entries_to_translate := entries_to_translate s @ [r]\<rparr>"] None
        by simp
    qed
  qed
qed

lemma calls_prints: "calls (map Print ms) = []"
  by (induction ms) simp_all

lemma saves_prints: "saves (map Print ms) = []"
  by (induction ms) simp_all

lemma delayed_prints: "delayed prev (map Print ms)"
  by (induction ms arbitrary: prev) simp_all

lemma scan_catalog_out: "\<exists>ms. scan_out (scan_catalog filepath po) = map Print ms"
proof -
  let ?init = "[''Processing file: '' @ filepath,
           ''Found '' @ str_nat (length po) @ '' entries.'',
           ''Found '' @ str_nat (length (potentially_translatable po)) @
                  '' entries with empty msgstr.'']"
  obtain ms where "scan_out (scan_catalog filepath po) = map Print ?init @ map Print ms"
    unfolding scan_catalog_def
    using skip_loop_out [of po "potentially_translatable po"
          "\<lparr>skipped_count = 0, entries_to_translate = [], scan_out = map Print ?init\<rparr>"]
    by auto
  then show ?thesis by (intro exI [of _ "?init @ ms"]) simp
qed

lemma loop_start_out: "\<exists>ms. out (loop_start filepath po w) = map Print ms"
proof -
  obtain ms where ms: "scan_out (scan_catalog filepath po) = map Print ms"
    using scan_catalog_out by blast
  show ?thesis
    by (rule exI [of _ "ms @ [''Attempting to translate '' @
                    str_nat (length (entries_to_translate (scan_catalog filepath po))) @ '' entries.'']"])
       (simp add: loop_start_def Let_def ms)
qed

lemma loop_start_simps [simp]:
  "catalog (loop_start filepath po w) = po"
  "client (loop_start filepath po w) = w"
  "translated_count (loop_start filepath po w) = 0"
  by (simp_all add: loop_start_def Let_def)

lemma todo_distinct: "distinct (entries_to_translate (scan_catalog filepath po))"
  by (simp add: entries_to_translate_scan)

lemma todo_sorted: "sorted_wrt (<) (entries_to_translate (scan_catalog filepath po))"
  by (simp add: entries_to_translate_scan sorted_wrt_filter)

lemma todo_member:
  "r \<in> set (entries_to_translate (scan_catalog filepath po)) \<longleftrightarrow> r < length po \<and> eligible (po ! r)"
  by (auto simp: entries_to_translate_scan)

lemma translate_all_length: "length (catalog (translate_all env filepath po w)) = length po"
  by (simp add: translate_all_def Let_def translate_loop_length)

lemma translate_all_frame:
  "\<not> eligible (po ! j) \<Longrightarrow> catalog (translate_all env filepath po w) ! j = po ! j"
  by (simp add: translate_all_def Let_def translate_loop_other todo_member)

lemma translate_all_calls:
  "calls (out (translate_all env filepath po w)) =
     map (\<lambda>r. msgid (po ! r)) (entries_to_translate (scan_catalog filepath po))"
proof -
  obtain ms where "out (loop_start filepath po w) = map Print ms"
    using loop_start_out [of filepath po w] by auto
  then show ?thesis
    by (simp add: translate_all_def Let_def translate_loop_calls calls_prints)
qed

lemma translate_all_saves: "saves (out (translate_all env filepath po w)) = []"
proof -
  obtain ms where "out (loop_start filepath po w) = map Print ms"
    using loop_start_out [of filepath po w] by auto
  then show ?thesis
    by (simp add: translate_all_def Let_def translate_loop_saves saves_prints)
qed

lemma translate_all_delayed: "delayed None (out (translate_all env filepath po w))"
proof -
  obtain ms where "out (loop_start filepath po w) = map Print ms"
    using loop_start_out [of filepath po w] by auto
  then have "delayed None (out (loop_start filepath po w))"
    by (simp add: delayed_prints)
  then show ?thesis
    by (simp add: translate_all_def Let_def translate_loop_delayed)
qed

subsection \<open>The effects of a whole run\<close>

lemma no_calls_delayed: "calls evs = [] \<Longrightarrow> delayed prev evs"
  by (induction prev evs rule: delayed.induct) simp_all

lemma Save_in_saves: "Save q \<in> set evs \<longleftrightarrow> q \<in> set (saves evs)"
  by (induction evs rule: saves.induct) auto

lemma Translate_in_calls: "Translate text lang \<in> set evs \<Longrightarrow> text \<in> set (calls evs)"
  by (induction evs rule: calls.induct) auto

lemma skipped_note_prints: "\<exists>ms. skipped_note k = map Print ms"
proof (cases "k > 0")
  case True
  then show ?thesis
    by (intro exI [of _ "[''Skipped a total of '' @ str_nat k @
                   '' entries (already translated, fuzzy, or report-related).'' @
                   '' Note: The count includes entries skipped in the initial filter.'']"])
       (simp add: skipped_note_def)
next
  case False
  then show ?thesis
    by (intro exI [of _ "[]"]) (simp add: skipped_note_def)
qed

lemma calls_skipped_note [simp]: "calls (skipped_note k) = []"
  using skipped_note_prints [of k] by (auto simp: calls_prints)

lemma saves_skipped_note [simp]: "saves (skipped_note k) = []"
  using skipped_note_prints [of k] by (auto simp: saves_prints)

lemma calls_handler [simp]: "calls [handler filepath e] = []"
  by (cases e) simp_all

lemma saves_handler [simp]: "saves [handler filepath e] = []"
  by (cases e) simp_all

lemma propagated_translate_po_file: "propagated (translate_po_file env filepath) = None"
  by (simp add: translate_po_file_def Let_def split: option.splits)

lemma po_after_translate_po_file:
  "pofile env filepath = Inr po \<Longrightarrow>
   po_after (translate_po_file env filepath) =
     Some (case new_translator env of
             Inl e \<Rightarrow> po
           | Inr w \<Rightarrow> catalog (translate_all env filepath po w))"
  by (simp add: translate_po_file_def try_body_def Let_def split: option.splits sum.splits)

lemma calls_try_body:
  "calls (events (try_body env filepath)) =
     (case pofile env filepath of
        Inl e \<Rightarrow> []
      | Inr po \<Rightarrow>
         (case new_translator env of
            Inl e \<Rightarrow> []
          | Inr w \<Rightarrow> calls (out (translate_all env filepath po w))))"
  by (simp add: try_body_def Let_def calls_append split: option.splits sum.splits)

lemma saves_try_body:
  "saves (events (try_body env filepath)) =
     (case pofile env filepath of
        Inl e \<Rightarrow> []
      | Inr po \<Rightarrow>
         (case new_translator env of
            Inl e \<Rightarrow> []
          | Inr w \<Rightarrow>
             if translated_count (translate_all env filepath po w) > 0
             then [catalog (translate_all env filepath po w)] else []))"
  by (simp add: try_body_def Let_def saves_append translate_all_saves
           split: option.splits sum.splits)

lemma calls_translate_po_file:
  "calls (events (translate_po_file env filepath)) = calls (events (try_body env filepath))"
  by (simp add: translate_po_file_def Let_def calls_append split: option.splits)

lemma saves_translate_po_file:
  "saves (events (translate_po_file env filepath)) = saves (events (try_body env filepath))"
  by (simp add: translate_po_file_def Let_def saves_append split: option.splits)

lemma events_try_body:
  "pofile env filepath = Inr po \<Longrightarrow> new_translator env = Inr w \<Longrightarrow>
   \<exists>rest. events (try_body env filepath) = out (translate_all env filepath po w) @ rest \<and>
          calls rest = []"
  by (simp add: try_body_def Let_def calls_append split: option.splits)

lemma events_translate_po_file:
  assumes "pofile env filepath = Inr po" "new_translator env = Inr w"
  shows "\<exists>rest. events (translate_po_file env filepath) =
            out (translate_all env filepath po w) @ rest \<and> calls rest = []"
proof -
  obtain rest where r: "events (try_body env filepath) =
      out (translate_all env filepath po w) @ rest" "calls rest = []"
    using events_try_body [OF assms] by auto
  show ?thesis
  proof (cases "propagated (try_body env filepath)")
    case None
    then show ?thesis using r by (simp add: translate_po_file_def)
  next
    case (Some e)
    then show ?thesis using r
      by (intro exI [of _ "rest @ [handler filepath e]"])
         (simp add: translate_po_file_def calls_append)
  qed
qed

lemma delayed_translate_po_file: "delayed None (events (translate_po_file env filepath))"
proof (cases "pofile env filepath")
  case (Inl e)
  then show ?thesis
    by (simp add: no_calls_delayed calls_translate_po_file calls_try_body)
next
  case (Inr po)
  note po = this
  show ?thesis
  proof (cases "new_translator env")
    case (Inl e)
    then show ?thesis
      using po by (simp add: no_calls_delayed calls_translate_po_file calls_try_body)
  next
    case (Inr w)
    obtain rest where "events (translate_po_file env filepath) =
        out (translate_all env filepath po w) @ rest" "calls rest = []"
      using events_translate_po_file [OF po Inr] by auto
    then show ?thesis
      by (simp add: delayed_append translate_all_delayed no_calls_delayed)
  qed
qed

subsection \<open>The state of the run inside the translation loop\<close>

lemma loop_state_Suc:
  assumes "k < length (entries_to_translate (scan_catalog filepath po))"
  shows "loop_state env filepath po w (Suc k) =
     translate_entry env (length (entries_to_translate (scan_catalog filepath po))) k
       (entries_to_translate (scan_catalog filepath po) ! k) (loop_state env filepath po w k)"
proof -
  let ?todo = "entries_to_translate (scan_catalog filepath po)"
  have "take (Suc k) ?todo = take k ?todo @ [?todo ! k]"
    using assms by (simp add: take_Suc_conv_app_nth)
  moreover have "length (take k ?todo) = k"
    using assms by simp
  ultimately show ?thesis
    by (simp add: loop_state_def Let_def translate_loop_append)
qed

lemma translate_all_from:
  assumes "k \<le> length (entries_to_translate (scan_catalog filepath po))"
  shows "translate_all env filepath po w =
     translate_loop env (length (entries_to_translate (scan_catalog filepath po))) k
       (drop k (entries_to_translate (scan_catalog filepath po)))
       (loop_state env filepath po w k)"
proof -
  let ?todo = "entries_to_translate (scan_catalog filepath po)"
  have "translate_loop env (length ?todo) 0 (take k ?todo @ drop k ?todo) (loop_start filepath po w) =
        translate_loop env (length ?todo) (0 + length (take k ?todo)) (drop k ?todo)
          (translate_loop env (length ?todo) 0 (take k ?todo) (loop_start filepath po w))"
    by (rule translate_loop_append)
  moreover have "length (take k ?todo) = k"
    using assms by simp
  ultimately show ?thesis
    by (simp add: translate_all_def loop_state_def Let_def)
qed

lemma loop_state_frame:
  "r \<notin> set (take k (entries_to_translate (scan_catalog filepath po))) \<Longrightarrow>
   catalog (loop_state env filepath po w k) ! r = po ! r"
  by (simp add: loop_state_def Let_def translate_loop_other)

lemma loop_state_length: "length (catalog (loop_state env filepath po w k)) = length po"
  by (simp add: loop_state_def Let_def translate_loop_length)

lemma nth_notin_take:
  assumes "distinct xs" "k < length xs"
  shows "xs ! k \<notin> set (take k xs)"
proof
  assume "xs ! k \<in> set (take k xs)"
  then obtain j where j: "j < length (take k xs)" "take k xs ! j = xs ! k"
    by (auto simp: in_set_conv_nth)
  then have "j < k" "xs ! j = xs ! k" by simp_all
  with assms show False
    by (simp add: nth_eq_iff_index_eq)
qed

lemma nth_notin_drop:
  assumes "distinct xs" "k < length xs"
  shows "xs ! k \<notin> set (drop (Suc k) xs)"
proof
  assume "xs ! k \<in> set (drop (Suc k) xs)"
  then obtain j where j: "j < length (drop (Suc k) xs)" "drop (Suc k) xs ! j = xs ! k"
    by (auto simp: in_set_conv_nth)
  then have "Suc k + j < length xs" "xs ! (Suc k + j) = xs ! k" by simp_all
  with assms show False
    by (simp add: nth_eq_iff_index_eq)
qed

lemma loop_state_current:
  assumes "k < length (entries_to_translate (scan_catalog filepath po))"
  shows "catalog (loop_state env filepath po w k) !
           (entries_to_translate (scan_catalog filepath po) ! k) =
         po ! (entries_to_translate (scan_catalog filepath po) ! k)"
  using assms by (simp add: loop_state_frame nth_notin_take todo_distinct)

lemma translate_all_after:
  assumes "k < length (entries_to_translate (scan_catalog filepath po))"
  shows "catalog (translate_all env filepath po w) !
           (entries_to_translate (scan_catalog filepath po) ! k) =
         catalog (loop_state env filepath po w (Suc k)) !
           (entries_to_translate (scan_catalog filepath po) ! k)"
proof -
  have "Suc k \<le> length (entries_to_translate (scan_catalog filepath po))"
    using assms by simp
  from translate_all_from [OF this, of env w] show ?thesis
    using assms by (simp add: translate_loop_other nth_notin_drop todo_distinct)
qed

lemma translate_loop_out:
  "\<exists>ext. out (translate_loop env n i rs s) = out s @ ext"
proof (induction rs arbitrary: i s)
  case Nil
  then show ?case by simp
next
  case (Cons r rs)
  obtain ext where "out (translate_loop env n (i + 1) rs (translate_entry env n i r s)) =
      out (translate_entry env n i r s) @ ext"
    using Cons.IH [of "i + 1" "translate_entry env n i r s"] by auto
  moreover obtain a b where "out (translate_entry env n i r s) =
      out s @ [Print a, Sleep (1 / 2), Translate (msgid (catalog s ! r)) target_language, Print b]"
    using translate_entry_out [of env n i r s] by auto
  ultimately show ?case by simp
qed

lemma loop_state_out_subset:
  assumes "k \<le> length (entries_to_translate (scan_catalog filepath po))"
  shows "set (out (loop_state env filepath po w k)) \<subseteq> set (out (translate_all env filepath po w))"
proof -
  obtain ext where "out (translate_all env filepath po w) = out (loop_state env filepath po w k) @ ext"
    using translate_all_from [OF assms, of env w]
      translate_loop_out [of env "length (entries_to_translate (scan_catalog filepath po))" k
         "drop k (entries_to_translate (scan_catalog filepath po))" "loop_state env filepath po w k"]
    by auto
  then show ?thesis by auto
qed

lemma translate_entry_count:
  assumes "r < length (catalog s)" "msgstr (catalog s ! r) = []"
  shows "translated_count (translate_entry env n i r s) =
     translated_count s +
       (if catalog (translate_entry env n i r s) ! r \<noteq> catalog s ! r then 1 else 0)"
proof -
  have neq: "(catalog s ! r)\<lparr>msgstr := t, flags := fl\<rparr> \<noteq> catalog s ! r"
    and neq': "(catalog s ! r)\<lparr>msgstr := t\<rparr> \<noteq> catalog s ! r" if "t \<noteq> []" for t fl
  proof -
    have "msgstr ((catalog s ! r)\<lparr>msgstr := t, flags := fl\<rparr>) \<noteq> msgstr (catalog s ! r)"
      using that assms(2) by simp
    then show "(catalog s ! r)\<lparr>msgstr := t, flags := fl\<rparr> \<noteq> catalog s ! r"
      by metis
    have "msgstr ((catalog s ! r)\<lparr>msgstr := t\<rparr>) \<noteq> msgstr (catalog s ! r)"
      using that assms(2) by simp
    then show "(catalog s ! r)\<lparr>msgstr := t\<rparr> \<noteq> catalog s ! r"
      by metis
  qed
  show ?thesis
    using assms(1) neq neq'
    by (simp add: translate_entry_def Let_def split: prod.splits response.splits option.splits)
qed

lemma translate_loop_count:
  assumes "distinct rs" "\<forall>r \<in> set rs. r < length (catalog s) \<and> msgstr (catalog s ! r) = []"
  shows "translated_count (translate_loop env n i rs s) =
     translated_count s +
       length (filter (\<lambda>r. catalog (translate_loop env n i rs s) ! r \<noteq> catalog s ! r) rs)"
  using assms
proof (induction rs arbitrary: i s)
  case Nil
  then show ?case by simp
next
  case (Cons r rs)
  let ?s1 = "translate_entry env n i r s"
  let ?fin = "translate_loop env n (i + 1) rs ?s1"
  have same: "catalog ?s1 ! r' = catalog s ! r'" if "r' \<in> set rs" for r'
    using that Cons.prems(1) by (intro translate_entry_other) auto
  have "\<forall>r' \<in> set rs. r' < length (catalog ?s1) \<and> msgstr (catalog ?s1 ! r') = []"
    using Cons.prems(2) same by (simp add: translate_entry_length)
  with Cons.prems(1) have ih: "translated_count ?fin =
     translated_count ?s1 + length (filter (\<lambda>r'. catalog ?fin ! r' \<noteq> catalog ?s1 ! r') rs)"
    using Cons.IH [of ?s1 "i + 1"] by simp
  have flt: "filter (\<lambda>r'. catalog ?fin ! r' \<noteq> catalog ?s1 ! r') rs =
             filter (\<lambda>r'. catalog ?fin ! r' \<noteq> catalog s ! r') rs"
    by (rule filter_cong) (simp_all add: same)
  have here: "catalog ?fin ! r = catalog ?s1 ! r"
    using Cons.prems(1) by (simp add: translate_loop_other)
  have cnt: "translated_count ?s1 =
     translated_count s + (if catalog ?s1 ! r \<noteq> catalog s ! r then 1 else 0)"
    using Cons.prems(2) by (simp add: translate_entry_count)
  show ?case
    using ih flt here cnt by simp
qed

lemma translate_all_count:
  "translated_count (translate_all env filepath po w) =
     length (filter (\<lambda>i. catalog (translate_all env filepath po w) ! i \<noteq> po ! i) [0..<length po])"
proof -
  let ?todo = "entries_to_translate (scan_catalog filepath po)"
  let ?changed = "\<lambda>i. catalog (translate_all env filepath po w) ! i \<noteq> po ! i"
  have "\<forall>r \<in> set ?todo. r < length (catalog (loop_start filepath po w)) \<and>
          msgstr (catalog (loop_start filepath po w) ! r) = []"
    by (simp add: todo_member eligible_def)
  then have "translated_count (translate_all env filepath po w) = length (filter ?changed ?todo)"
    using translate_loop_count [of ?todo "loop_start filepath po w" env "length ?todo" 0]
    by (simp add: translate_all_def Let_def todo_distinct)
  also have "filter ?changed ?todo = filter ?changed [0..<length po]"
    using translate_all_frame [of po _ env filepath w]
    by (auto simp: entries_to_translate_scan intro!: filter_cong)
  finally show ?thesis .
qed

section \<open>The claims of the specification\<close>

subsection \<open>Entries that a run leaves alone\<close>

lemma not_eligible_never_modified:
  assumes "pofile env filepath = Inr po" "\<not> eligible (po ! i)"
  shows "\<exists>po'. po_after (translate_po_file env filepath) = Some po' \<and>
           length po' = length po \<and> po' ! i = po ! i \<and>
           (\<forall>q. Save q \<in> set (events (translate_po_file env filepath)) \<longrightarrow> q ! i = po ! i)"
proof (cases "new_translator env")
  case (Inl e)
  then show ?thesis
    using assms(1)
    by (simp add: po_after_translate_po_file Save_in_saves saves_translate_po_file saves_try_body)
next
  case (Inr w)
  have "q ! i = po ! i" if "Save q \<in> set (events (translate_po_file env filepath))" for q
  proof -
    have "q \<in> set (saves (events (translate_po_file env filepath)))"
      using that by (simp add: Save_in_saves)
    then have "q = catalog (translate_all env filepath po w)"
      using assms(1) Inr
      by (simp add: saves_translate_po_file saves_try_body split: if_splits)
    then show ?thesis
      using assms(2) by (simp add: translate_all_frame)
  qed
  then show ?thesis
    using assms Inr
    by (simp add: po_after_translate_po_file translate_all_length translate_all_frame)
qed

text \<open>
  C1. An entry one of whose occurrences has \<open>report\<close> in its file name, in any mix of upper
  and lower case, is never modified by \<open>translate_po_file\<close>: the entry in the catalog after
  the run, and in any catalog the run saves, is the entry as it was loaded, so its
  \<open>msgstr\<close> and its flags are the same. (The program looks for \<open>report\<close> in the file name
  of an occurrence; the other component of the pair is a line number.)
\<close>

theorem report_entries_never_modified:
  assumes "pofile env filepath = Inr po" and "i < length po"
    and "(filename, line) \<in> set (occurrences (po ! i))"
    and "str_in ''report'' (lower filename)"
  shows "\<exists>po'. po_after (translate_po_file env filepath) = Some po' \<and>
           length po' = length po \<and> po' ! i = po ! i \<and>
           (\<forall>q. Save q \<in> set (events (translate_po_file env filepath)) \<longrightarrow> q ! i = po ! i)"
proof -
  have "report_occurrence (occurrences (po ! i)) \<noteq> None"
    using assms(3,4) by (rule report_occurrence_mentions)
  then have "\<not> eligible (po ! i)"
    by (simp add: eligible_def)
  with assms(1) show ?thesis
    by (rule not_eligible_never_modified)
qed

theorem report_entries_never_modified_witness:
  "pofile demo_env ''ar.po'' = Inr demo_po \<and> 1 < length demo_po \<and>
   (''Report/sale.xml'', ''7'') \<in> set (occurrences (demo_po ! 1)) \<and>
   str_in ''report'' (lower ''Report/sale.xml'') \<and>
   (\<exists>po'. po_after (translate_po_file demo_env ''ar.po'') = Some po' \<and>
           length po' = length demo_po \<and> po' ! 1 = demo_po ! 1 \<and>
           (\<forall>q. Save q \<in> set (events (translate_po_file demo_env ''ar.po'')) \<longrightarrow>
                q ! 1 = demo_po ! 1))"
proof -
  have h1: "pofile demo_env ''ar.po'' = Inr demo_po"
    by (simp add: demo_env_def polib_pofile_def demo_files_def)
  have h2: "1 < length demo_po"
    by (simp add: demo_po_def)
  have h3: "(''Report/sale.xml'', ''7'') \<in> set (occurrences (demo_po ! 1))"
    by (simp add: demo_po_def)
  have h4: "str_in ''report'' (lower ''Report/sale.xml'')"
    by code_simp
  show ?thesis
    using h1 h2 h3 h4 report_entries_never_modified [OF h1 h2 h3 h4] by blast
qed

text \<open>
  C3. An entry whose \<open>msgstr\<close> is not empty when the catalog is loaded is never modified by
  \<open>translate_po_file\<close>: after the run, and in any catalog the run saves, the entry is the
  entry as it was loaded, with the same \<open>msgstr\<close>, flags and occurrences.
\<close>

theorem translated_entries_never_modified:
  assumes "pofile env filepath = Inr po" and "i < length po"
    and "msgstr (po ! i) \<noteq> []"
  shows "\<exists>po'. po_after (translate_po_file env filepath) = Some po' \<and>
           length po' = length po \<and> po' ! i = po ! i \<and>
           (\<forall>q. Save q \<in> set (events (translate_po_file env filepath)) \<longrightarrow> q ! i = po ! i)"
proof -
  have "\<not> eligible (po ! i)"
    using assms(3) by (simp add: eligible_def)
  with assms(1) show ?thesis
    by (rule not_eligible_never_modified)
qed

theorem translated_entries_never_modified_witness:
  "pofile demo_env ''ar.po'' = Inr demo_po \<and> 2 < length demo_po \<and>
   msgstr (demo_po ! 2) \<noteq> [] \<and>
   (\<exists>po'. po_after (translate_po_file demo_env ''ar.po'') = Some po' \<and>
           length po' = length demo_po \<and> po' ! 2 = demo_po ! 2 \<and>
           (\<forall>q. Save q \<in> set (events (translate_po_file demo_env ''ar.po'')) \<longrightarrow>
                q ! 2 = demo_po ! 2))"
proof -
  have h1: "pofile demo_env ''ar.po'' = Inr demo_po"
    by (simp add: demo_env_def polib_pofile_def demo_files_def)
  have h2: "2 < length demo_po"
    by (simp add: demo_po_def)
  have h3: "msgstr (demo_po ! 2) \<noteq> []"
    by (simp add: demo_po_def)
  show ?thesis
    using h1 h2 h3 translated_entries_never_modified [OF h1 h2 h3] by blast
qed

text \<open>
  C4. An entry whose flags contain \<open>fuzzy\<close> when the catalog is loaded is never modified by
  \<open>translate_po_file\<close>: after the run, and in any catalog the run saves, the entry is the
  entry as it was loaded, with the same \<open>msgstr\<close> and flags.
\<close>

theorem fuzzy_entries_never_modified:
  assumes "pofile env filepath = Inr po" and "i < length po"
    and "''fuzzy'' \<in> set (flags (po ! i))"
  shows "\<exists>po'. po_after (translate_po_file env filepath) = Some po' \<and>
           length po' = length po \<and> po' ! i = po ! i \<and>
           (\<forall>q. Save q \<in> set (events (translate_po_file env filepath)) \<longrightarrow> q ! i = po ! i)"
proof -
  have "\<not> eligible (po ! i)"
    using assms(3) by (simp add: eligible_def)
  with assms(1) show ?thesis
    by (rule not_eligible_never_modified)
qed

theorem fuzzy_entries_never_modified_witness:
  "pofile demo_env ''ar.po'' = Inr demo_po \<and> 3 < length demo_po \<and>
   ''fuzzy'' \<in> set (flags (demo_po ! 3)) \<and>
   (\<exists>po'. po_after (translate_po_file demo_env ''ar.po'') = Some po' \<and>
           length po' = length demo_po \<and> po' ! 3 = demo_po ! 3 \<and>
           (\<forall>q. Save q \<in> set (events (translate_po_file demo_env ''ar.po'')) \<longrightarrow>
                q ! 3 = demo_po ! 3))"
proof -
  have h1: "pofile demo_env ''ar.po'' = Inr demo_po"
    by (simp add: demo_env_def polib_pofile_def demo_files_def)
  have h2: "3 < length demo_po"
    by (simp add: demo_po_def)
  have h3: "''fuzzy'' \<in> set (flags (demo_po ! 3))"
    by (simp add: demo_po_def)
  show ?thesis
    using h1 h2 h3 fuzzy_entries_never_modified [OF h1 h2 h3] by blast
qed

text \<open>
  C9. An entry whose \<open>msgid\<close> is empty is never among the entries to translate, the empty
  text is never sent to the translation service, and the entry is never modified, whatever
  its \<open>msgstr\<close> is: after the run, and in any catalog the run saves, it is the entry as it
  was loaded.
\<close>

theorem empty_msgid_never_translated:
  assumes "pofile env filepath = Inr po" and "i < length po"
    and "msgid (po ! i) = []"
  shows "i \<notin> set (entries_to_translate (scan_catalog filepath po)) \<and>
         (\<forall>lang. Translate (msgid (po ! i)) lang \<notin> set (events (translate_po_file env filepath))) \<and>
         (\<exists>po'. po_after (translate_po_file env filepath) = Some po' \<and>
            length po' = length po \<and> po' ! i = po ! i \<and>
            (\<forall>q. Save q \<in> set (events (translate_po_file env filepath)) \<longrightarrow> q ! i = po ! i))"
proof -
  have ne: "\<not> eligible (po ! i)"
    using assms(3) by (simp add: eligible_def)
  then have "i \<notin> set (entries_to_translate (scan_catalog filepath po))"
    by (simp add: todo_member)
  moreover have "Translate (msgid (po ! i)) lang \<notin> set (events (translate_po_file env filepath))"
    for lang
  proof
    assume "Translate (msgid (po ! i)) lang \<in> set (events (translate_po_file env filepath))"
    then have "[] \<in> set (calls (events (translate_po_file env filepath)))"
      using assms(3) Translate_in_calls by fastforce
    then obtain r where "r \<in> set (entries_to_translate (scan_catalog filepath po))"
        "msgid (po ! r) = []"
      using assms(1)
      by (auto simp: calls_translate_po_file calls_try_body translate_all_calls
               split: sum.splits)
    then show False
      by (simp add: todo_member eligible_def)
  qed
  moreover note not_eligible_never_modified [OF assms(1) ne]
  ultimately show ?thesis by blast
qed

theorem empty_msgid_never_translated_witness:
  "pofile demo_env ''ar.po'' = Inr demo_po \<and> 4 < length demo_po \<and>
   msgid (demo_po ! 4) = [] \<and> msgstr (demo_po ! 4) = [] \<and>
   4 \<notin> set (entries_to_translate (scan_catalog ''ar.po'' demo_po)) \<and>
   (\<forall>lang. Translate (msgid (demo_po ! 4)) lang \<notin>
            set (events (translate_po_file demo_env ''ar.po''))) \<and>
   (\<exists>po'. po_after (translate_po_file demo_env ''ar.po'') = Some po' \<and>
           length po' = length demo_po \<and> po' ! 4 = demo_po ! 4 \<and>
           (\<forall>q. Save q \<in> set (events (translate_po_file demo_env ''ar.po'')) \<longrightarrow>
                q ! 4 = demo_po ! 4))"
proof -
  have h1: "pofile demo_env ''ar.po'' = Inr demo_po"
    by (simp add: demo_env_def polib_pofile_def demo_files_def)
  have h2: "4 < length demo_po"
    by (simp add: demo_po_def)
  have h3: "msgid (demo_po ! 4) = []"
    by (simp add: demo_po_def)
  have h4: "msgstr (demo_po ! 4) = []"
    by (simp add: demo_po_def)
  show ?thesis
    using h1 h2 h3 h4 empty_msgid_never_translated [OF h1 h2 h3] by blast
qed

subsection \<open>Entries that reach the translation service\<close>

lemma events_superset:
  assumes "pofile env filepath = Inr po" "new_translator env = Inr w"
  shows "set (out (translate_all env filepath po w)) \<subseteq> set (events (translate_po_file env filepath))"
  using events_translate_po_file [OF assms] by auto

lemma saved_is_po_after:
  assumes "pofile env filepath = Inr po" "new_translator env = Inr w"
    and "Save q \<in> set (events (translate_po_file env filepath))"
  shows "q = catalog (translate_all env filepath po w)"
proof -
  have "q \<in> set (saves (events (translate_po_file env filepath)))"
    using assms(3) by (simp add: Save_in_saves)
  then show ?thesis
    using assms(1,2) by (simp add: saves_translate_po_file saves_try_body split: if_splits)
qed

text \<open>
  C2. When the translation loop reaches an entry and the call of the service for it returns
  a non-empty text, the entry is successfully translated: after the run its \<open>msgstr\<close> is
  that text and its flags do not contain \<open>fuzzy\<close>, in the catalog in memory and in any
  catalog the run saves. Here \<open>r\<close> is the \<open>k\<close>-th entry to translate and the call is made
  in the state of the client that the loop has reached by then.
\<close>

theorem successful_translation_not_fuzzy:
  assumes "pofile env filepath = Inr po" and "new_translator env = Inr w"
    and "k < length (entries_to_translate (scan_catalog filepath po))"
    and "r = entries_to_translate (scan_catalog filepath po) ! k"
    and "translate env (client (loop_state env filepath po w k)) (msgid (po ! r))
           target_language = (Returns (Some t), w')"
    and "t \<noteq> []"
  shows "\<exists>po'. po_after (translate_po_file env filepath) = Some po' \<and>
           msgstr (po' ! r) = t \<and> ''fuzzy'' \<notin> set (flags (po' ! r)) \<and>
           (\<forall>q. Save q \<in> set (events (translate_po_file env filepath)) \<longrightarrow> q = po')"
proof -
  let ?todo = "entries_to_translate (scan_catalog filepath po)"
  let ?s = "loop_state env filepath po w k"
  let ?fin = "translate_all env filepath po w"
  have "r \<in> set ?todo"
    using assms(3,4) by simp
  then have r: "r < length po" "eligible (po ! r)"
    by (simp_all add: todo_member)
  have cur: "catalog ?s ! r = po ! r"
    using assms(3,4) by (simp add: loop_state_current)
  have len: "r < length (catalog ?s)"
    using r(1) by (simp add: loop_state_length)
  have "loop_state env filepath po w (Suc k) = translate_entry env (length ?todo) k r ?s"
    using assms(3,4) by (simp add: loop_state_Suc)
  then have "catalog (loop_state env filepath po w (Suc k)) ! r =
      (po ! r)\<lparr>msgstr := t,
               flags := (if ''fuzzy'' \<in> set (flags (po ! r))
                         then remove1 ''fuzzy'' (flags (po ! r)) else flags (po ! r))\<rparr>"
    using assms(5,6) cur len by (simp add: translate_entry_def Let_def)
  moreover have "catalog ?fin ! r = catalog (loop_state env filepath po w (Suc k)) ! r"
    using assms(3,4) by (simp add: translate_all_after)
  ultimately have "msgstr (catalog ?fin ! r) = t" "''fuzzy'' \<notin> set (flags (catalog ?fin ! r))"
    using r(2) by (simp_all add: eligible_def)
  moreover have "po_after (translate_po_file env filepath) = Some (catalog ?fin)"
    using assms(1,2) by (simp add: po_after_translate_po_file)
  moreover have "\<forall>q. Save q \<in> set (events (translate_po_file env filepath)) \<longrightarrow> q = catalog ?fin"
    using saved_is_po_after [OF assms(1,2)] by blast
  ultimately show ?thesis by blast
qed

lemma demo_todo: "entries_to_translate (scan_catalog ''ar.po'' demo_po) = [0, 5, 6]"
  by code_simp

lemma demo_loop_state_0: "client (loop_state demo_env ''ar.po'' demo_po 0 0) = 0"
  by (simp add: loop_state_def Let_def)

lemma translate_entry_client:
  "client (translate_entry env n i r s) =
     snd (translate env (client s) (msgid (catalog s ! r)) target_language)"
  by (simp add: translate_entry_def Let_def split: prod.splits response.splits option.splits)

lemma demo_loop_state_1: "client (loop_state demo_env ''ar.po'' demo_po 0 (Suc 0)) = Suc 0"
proof -
  let ?s = "loop_state demo_env ''ar.po'' demo_po 0 0"
  let ?todo = "entries_to_translate (scan_catalog ''ar.po'' demo_po)"
  have "loop_state demo_env ''ar.po'' demo_po 0 (Suc 0) =
      translate_entry demo_env (length ?todo) 0 (?todo ! 0) ?s"
    by (rule loop_state_Suc) (simp add: demo_todo)
  then have "client (loop_state demo_env ''ar.po'' demo_po 0 (Suc 0)) =
      snd (translate demo_env (client ?s) (msgid (catalog ?s ! (?todo ! 0))) target_language)"
    by (simp only: translate_entry_client)
  also have "\<dots> = snd (translate demo_env 0 (msgid (catalog ?s ! (?todo ! 0))) target_language)"
    by (simp only: demo_loop_state_0)
  also have "\<dots> = Suc 0"
    by (simp add: demo_env_def polib_pofile_def demo_files_def)
  finally show ?thesis .
qed

theorem successful_translation_not_fuzzy_witness:
  "pofile demo_env ''ar.po'' = Inr demo_po \<and> new_translator demo_env = Inr 0 \<and>
   0 < length (entries_to_translate (scan_catalog ''ar.po'' demo_po)) \<and>
   0 = entries_to_translate (scan_catalog ''ar.po'' demo_po) ! 0 \<and>
   translate demo_env (client (loop_state demo_env ''ar.po'' demo_po 0 0)) (msgid (demo_po ! 0))
     target_language = (Returns (Some ''ar:Hello''), 1) \<and>
   ''ar:Hello'' \<noteq> [] \<and>
   (\<exists>po'. po_after (translate_po_file demo_env ''ar.po'') = Some po' \<and>
      msgstr (po' ! 0) = ''ar:Hello'' \<and> ''fuzzy'' \<notin> set (flags (po' ! 0)) \<and>
      (\<forall>q. Save q \<in> set (events (translate_po_file demo_env ''ar.po'')) \<longrightarrow> q = po'))"
proof -
  have h1: "pofile demo_env ''ar.po'' = Inr demo_po"
    by (simp add: demo_env_def polib_pofile_def demo_files_def)
  have h2: "new_translator demo_env = Inr 0"
    by (simp add: demo_env_def polib_pofile_def demo_files_def)
  have h3: "0 < length (entries_to_translate (scan_catalog ''ar.po'' demo_po))"
    by (simp add: demo_todo)
  have h4: "0 = entries_to_translate (scan_catalog ''ar.po'' demo_po) ! 0"
    by (simp add: demo_todo)
  have h5: "translate demo_env (client (loop_state demo_env ''ar.po'' demo_po 0 0))
      (msgid (demo_po ! 0)) target_language = (Returns (Some ''ar:Hello''), 1)"
    by (simp add: demo_loop_state_0) (simp add: demo_env_def polib_pofile_def demo_files_def demo_po_def)
  have h6: "''ar:Hello'' \<noteq> []"
    by simp
  show ?thesis
    using h1 h2 h3 h4 h5 h6 successful_translation_not_fuzzy [OF h1 h2 h3 h4 h5 h6] by blast
qed

text \<open>
  C5. When the translation loop reaches an entry and the call of the service for it raises
  an exception, the loop prints the error line with the text of the exception, changes
  neither the catalog nor the count of translations, and goes on with the entries after
  it: every entry to translate is sent to the service, the failing one and the ones after
  it included. After the run the entry is the entry as it was loaded (so its \<open>msgstr\<close> is
  still empty and its flags are the same), and no exception leaves \<open>translate_po_file\<close>.
\<close>

theorem translation_error_skipped:
  assumes "pofile env filepath = Inr po" and "new_translator env = Inr w"
    and "k < length (entries_to_translate (scan_catalog filepath po))"
    and "r = entries_to_translate (scan_catalog filepath po) ! k"
    and "translate env (client (loop_state env filepath po w k)) (msgid (po ! r))
           target_language = (Raises e, w')"
  shows "loop_state env filepath po w (Suc k) =
           (loop_state env filepath po w k)
             \<lparr>client := w',
              out := out (loop_state env filepath po w k) @
                [Print (''Translating ('' @ str_nat (k + 1) @ ''/'' @
                        str_nat (length (entries_to_translate (scan_catalog filepath po))) @
                        ''): '' @ take 50 (msgid (po ! r)) @ ''...''),
                 Sleep (1 / 2),
                 Translate (msgid (po ! r)) target_language,
                 Print (''  -> Error translating '' @ [CHR 0x27] @ take 50 (msgid (po ! r)) @
                        ''...': '' @ exn_str e)]\<rparr> \<and>
         translate_all env filepath po w =
           translate_loop env (length (entries_to_translate (scan_catalog filepath po))) (Suc k)
             (drop (Suc k) (entries_to_translate (scan_catalog filepath po)))
             (loop_state env filepath po w (Suc k)) \<and>
         Print (''  -> Error translating '' @ [CHR 0x27] @ take 50 (msgid (po ! r)) @
                ''...': '' @ exn_str e) \<in> set (events (translate_po_file env filepath)) \<and>
         calls (events (translate_po_file env filepath)) =
           map (\<lambda>r. msgid (po ! r)) (entries_to_translate (scan_catalog filepath po)) \<and>
         (\<exists>po'. po_after (translate_po_file env filepath) = Some po' \<and> po' ! r = po ! r \<and>
            msgstr (po' ! r) = [] \<and> flags (po' ! r) = flags (po ! r)) \<and>
         propagated (translate_po_file env filepath) = None"
proof -
  let ?todo = "entries_to_translate (scan_catalog filepath po)"
  let ?s = "loop_state env filepath po w k"
  let ?fin = "translate_all env filepath po w"
  let ?err = "Print (''  -> Error translating '' @ [CHR 0x27] @ take 50 (msgid (po ! r)) @
                ''...': '' @ exn_str e)"
  have "r \<in> set ?todo"
    using assms(3,4) by simp
  then have r: "r < length po" "eligible (po ! r)"
    by (simp_all add: todo_member)
  have cur: "catalog ?s ! r = po ! r"
    using assms(3,4) by (simp add: loop_state_current)
  have step: "loop_state env filepath po w (Suc k) = translate_entry env (length ?todo) k r ?s"
    using assms(3,4) by (simp add: loop_state_Suc)
  have next_state: "loop_state env filepath po w (Suc k) =
           ?s\<lparr>client := w',
              out := out ?s @
                [Print (''Translating ('' @ str_nat (k + 1) @ ''/'' @ str_nat (length ?todo) @
                        ''): '' @ take 50 (msgid (po ! r)) @ ''...''),
                 Sleep (1 / 2),
                 Translate (msgid (po ! r)) target_language, ?err]\<rparr>"
    using assms(5) cur by (simp add: step translate_entry_def Let_def)
  have le: "Suc k \<le> length ?todo"
    using assms(3) by simp
  have rest: "?fin = translate_loop env (length ?todo) (Suc k) (drop (Suc k) ?todo)
                 (loop_state env filepath po w (Suc k))"
    using le by (rule translate_all_from)
  have "?err \<in> set (out (loop_state env filepath po w (Suc k)))"
    by (simp add: next_state)
  then have "?err \<in> set (out ?fin)"
    using loop_state_out_subset [OF le, of env w] by blast
  then have logged: "?err \<in> set (events (translate_po_file env filepath))"
    using events_superset [OF assms(1,2)] by blast
  have all_called: "calls (events (translate_po_file env filepath)) =
      map (\<lambda>r. msgid (po ! r)) ?todo"
    using assms(1,2) by (simp add: calls_translate_po_file calls_try_body translate_all_calls)
  have "catalog (loop_state env filepath po w (Suc k)) ! r = po ! r"
    using cur by (simp add: next_state)
  moreover have "catalog ?fin ! r = catalog (loop_state env filepath po w (Suc k)) ! r"
    using assms(3,4) by (simp add: translate_all_after)
  moreover have "po_after (translate_po_file env filepath) = Some (catalog ?fin)"
    using assms(1,2) by (simp add: po_after_translate_po_file)
  ultimately have unchanged: "\<exists>po'. po_after (translate_po_file env filepath) = Some po' \<and>
      po' ! r = po ! r \<and> msgstr (po' ! r) = [] \<and> flags (po' ! r) = flags (po ! r)"
    using r(2) by (simp add: eligible_def)
  have "propagated (translate_po_file env filepath) = None"
    by (rule propagated_translate_po_file)
  with next_state rest logged all_called unchanged show ?thesis
    by (intro conjI)
qed

theorem translation_error_skipped_witness:
  "pofile demo_env ''ar.po'' = Inr demo_po \<and> new_translator demo_env = Inr 0 \<and>
   1 < length (entries_to_translate (scan_catalog ''ar.po'' demo_po)) \<and>
   5 = entries_to_translate (scan_catalog ''ar.po'' demo_po) ! 1 \<and>
   translate demo_env (client (loop_state demo_env ''ar.po'' demo_po 0 1)) (msgid (demo_po ! 5))
     target_language = (Raises (OtherException ''timed out''), 2) \<and>
   Print (''  -> Error translating '' @ [CHR 0x27] @ take 50 (msgid (demo_po ! 5)) @
          ''...': '' @ exn_str (OtherException ''timed out''))
     \<in> set (events (translate_po_file demo_env ''ar.po'')) \<and>
   calls (events (translate_po_file demo_env ''ar.po'')) =
     map (\<lambda>r. msgid (demo_po ! r)) (entries_to_translate (scan_catalog ''ar.po'' demo_po)) \<and>
   (\<exists>po'. po_after (translate_po_file demo_env ''ar.po'') = Some po' \<and>
      po' ! 5 = demo_po ! 5 \<and> msgstr (po' ! 5) = [] \<and> flags (po' ! 5) = flags (demo_po ! 5))"
proof -
  have h1: "pofile demo_env ''ar.po'' = Inr demo_po"
    by (simp add: demo_env_def polib_pofile_def demo_files_def)
  have h2: "new_translator demo_env = Inr 0"
    by (simp add: demo_env_def polib_pofile_def demo_files_def)
  have h3: "1 < length (entries_to_translate (scan_catalog ''ar.po'' demo_po))"
    by (simp add: demo_todo)
  have h4: "5 = entries_to_translate (scan_catalog ''ar.po'' demo_po) ! 1"
    by (simp add: demo_todo)
  have h5: "translate demo_env (client (loop_state demo_env ''ar.po'' demo_po 0 1))
      (msgid (demo_po ! 5)) target_language = (Raises (OtherException ''timed out''), 2)"
    by (simp add: demo_loop_state_1) (simp add: demo_env_def polib_pofile_def demo_files_def demo_po_def)
  show ?thesis
    using h1 h2 h3 h4 h5 translation_error_skipped [OF h1 h2 h3 h4 h5] by blast
qed

subsection \<open>Exceptions and the command line\<close>

text \<open>
  The two handlers. No exception leaves \<open>translate_po_file\<close>. When loading raises
  \<^verbatim>\<open>FileNotFoundError\<close>, the run prints the line \<open>Error: File not found at\<close> with the path and
  nothing else, and no catalog is loaded. When the body of the \<^verbatim>\<open>try\<close> block raises any
  other exception (from loading, from the constructor of the translator or from saving), the
  run prints, after what the body printed, the line \<open>An unexpected error occurred:\<close> with the
  text of the exception. An exception of a translation call never leaves the body.
\<close>

lemma handlers_print_and_return:
  "propagated (translate_po_file env filepath) = None \<and>
   (pofile env filepath = Inl (FileNotFoundError m) \<longrightarrow>
      translate_po_file env filepath =
        \<lparr>propagated = None, po_after = None,
         events = [Print (''Error: File not found at '' @ filepath)]\<rparr>) \<and>
   (pofile env filepath = Inl (OtherException m) \<longrightarrow>
      translate_po_file env filepath =
        \<lparr>propagated = None, po_after = None,
         events = [Print (''An unexpected error occurred: '' @ m)]\<rparr>) \<and>
   (pofile env filepath = Inr po \<and> new_translator env = Inl (OtherException m) \<longrightarrow>
      translate_po_file env filepath =
        \<lparr>propagated = None, po_after = Some po,
         events = [Print (''An unexpected error occurred: '' @ m)]\<rparr>) \<and>
   (pofile env filepath = Inr po \<and> new_translator env = Inr w \<and>
    0 < translated_count (translate_all env filepath po w) \<and>
    save env (catalog (translate_all env filepath po w)) = Some (OtherException m) \<longrightarrow>
      translate_po_file env filepath =
        \<lparr>propagated = None, po_after = Some (catalog (translate_all env filepath po w)),
         events = out (translate_all env filepath po w) @
           [Print (''Saving translated file: '' @ filepath),
            Save (catalog (translate_all env filepath po w)),
            Print (''An unexpected error occurred: '' @ m)]\<rparr>) \<and>
   (propagated (try_body env filepath) = Some (FileNotFoundError m) \<longrightarrow>
      events (translate_po_file env filepath) =
        events (try_body env filepath) @ [Print (''Error: File not found at '' @ filepath)]) \<and>
   (propagated (try_body env filepath) = Some (OtherException m) \<longrightarrow>
      events (translate_po_file env filepath) =
        events (try_body env filepath) @ [Print (''An unexpected error occurred: '' @ m)])"
proof -
  have "propagated (translate_po_file env filepath) = None"
    by (rule propagated_translate_po_file)
  moreover have "translate_po_file env filepath =
        \<lparr>propagated = None, po_after = None,
         events = [Print (''Error: File not found at '' @ filepath)]\<rparr>"
    if "pofile env filepath = Inl (FileNotFoundError m)"
    using that by (simp add: translate_po_file_def try_body_def)
  moreover have "translate_po_file env filepath =
        \<lparr>propagated = None, po_after = None,
         events = [Print (''An unexpected error occurred: '' @ m)]\<rparr>"
    if "pofile env filepath = Inl (OtherException m)"
    using that by (simp add: translate_po_file_def try_body_def)
  moreover have "translate_po_file env filepath =
        \<lparr>propagated = None, po_after = Some po,
         events = [Print (''An unexpected error occurred: '' @ m)]\<rparr>"
    if "pofile env filepath = Inr po \<and> new_translator env = Inl (OtherException m)"
    using that by (simp add: translate_po_file_def try_body_def)
  moreover have "translate_po_file env filepath =
        \<lparr>propagated = None, po_after = Some (catalog (translate_all env filepath po w)),
         events = out (translate_all env filepath po w) @
           [Print (''Saving translated file: '' @ filepath),
            Save (catalog (translate_all env filepath po w)),
            Print (''An unexpected error occurred: '' @ m)]\<rparr>"
    if "pofile env filepath = Inr po \<and> new_translator env = Inr w \<and>
        0 < translated_count (translate_all env filepath po w) \<and>
        save env (catalog (translate_all env filepath po w)) = Some (OtherException m)"
    using that by (simp add: translate_po_file_def try_body_def Let_def)
  moreover have "events (translate_po_file env filepath) =
        events (try_body env filepath) @ [Print (''Error: File not found at '' @ filepath)]"
    if "propagated (try_body env filepath) = Some (FileNotFoundError m)"
    using that by (simp add: translate_po_file_def Let_def)
  moreover have "events (translate_po_file env filepath) =
        events (try_body env filepath) @ [Print (''An unexpected error occurred: '' @ m)]"
    if "propagated (try_body env filepath) = Some (OtherException m)"
    using that by (simp add: translate_po_file_def Let_def)
  ultimately show ?thesis by blast
qed

lemma translator_failure_printed:
  "translate_po_file broken_env ''ar.po'' =
     \<lparr>propagated = None, po_after = Some demo_po,
      events = [Print ''An unexpected error occurred: no network'']\<rparr>"
proof -
  have "pofile broken_env ''ar.po'' = Inr demo_po"
    by (simp add: broken_env_def demo_env_def polib_pofile_def demo_files_def)
  moreover have "new_translator broken_env = Inl (OtherException ''no network'')"
    by (simp add: broken_env_def)
  ultimately show ?thesis
    using handlers_print_and_return [of broken_env "''ar.po''" "''no network''" demo_po]
    by simp
qed

text \<open>
  A path that names no file never reaches the handler for \<^verbatim>\<open>FileNotFoundError\<close>: the parser
  library reads the string as PO text. On the empty path, whose text is an empty catalog,
  the run goes through as on an empty file and prints no error at all.
\<close>

lemma str_nat_0: "str_nat 0 = ''0''"
  by code_simp

lemma empty_path_read_as_text:
  assumes "pofile env = polib_pofile files parse_text"
    and "files [] = None" and "parse_text [] = Inr []"
    and "new_translator env = Inr w"
  shows "translate_po_file env [] =
     \<lparr>propagated = None, po_after = Some [],
      events =
        [Print ''Processing file: '',
         Print ''Found 0 entries.'',
         Print ''Found 0 entries with empty msgstr.'',
         Print ''Attempting to translate 0 entries.'',
         Print ''No new entries were translated in this run.'']\<rparr>"
proof -
  have "pofile env [] = Inr []"
    using assms(1-3) by (simp add: polib_pofile_def)
  then show ?thesis
    using assms(4)
    by (simp add: translate_po_file_def try_body_def translate_all_def loop_start_def
          scan_catalog_def potentially_translatable_def skipped_note_def str_nat_0)
qed

text \<open>
  C6. A file path that does not exist should end in a printed error message, with nothing
  propagated, and every other exception should be caught and printed likewise. The
  handlers do print and return, but the missing-file condition does not reach them: on the
  empty path, which names no file, \<open>translate_po_file\<close> finds a catalog of no entries,
  prints its five ordinary lines and no error message, and the line
  \<open>Error: File not found at\<close> is not among them.
\<close>

theorem missing_path_not_reported:
  "demo_files [] = None \<and>
   translate_po_file demo_env [] =
     \<lparr>propagated = None, po_after = Some [],
      events =
        [Print ''Processing file: '',
         Print ''Found 0 entries.'',
         Print ''Found 0 entries with empty msgstr.'',
         Print ''Attempting to translate 0 entries.'',
         Print ''No new entries were translated in this run.'']\<rparr> \<and>
   Print (''Error: File not found at '' @ []) \<notin> set (events (translate_po_file demo_env []))"
proof -
  have f: "demo_files [] = None"
    by (simp add: demo_files_def)
  have p: "pofile demo_env = polib_pofile demo_files demo_parse_text"
    by (simp add: demo_env_def)
  have e: "demo_parse_text [] = Inr []"
    by (simp add: demo_parse_text_def)
  have w: "new_translator demo_env = Inr 0"
    by (simp add: demo_env_def)
  have "translate_po_file demo_env [] =
     \<lparr>propagated = None, po_after = Some [],
      events =
        [Print ''Processing file: '',
         Print ''Found 0 entries.'',
         Print ''Found 0 entries with empty msgstr.'',
         Print ''Attempting to translate 0 entries.'',
         Print ''No new entries were translated in this run.'']\<rparr>"
    using p f e w by (rule empty_path_read_as_text)
  then show ?thesis
    using f by simp
qed

text \<open>
  C7. The command line takes at most one positional argument, the file path. With no
  argument the program prints that it uses the default and runs \<open>translate_po_file\<close> on the
  fixed path \<^verbatim>\<open>/opt/odoo18/projects/bb/bbb/i18n/ar_001.po\<close>; with one argument it runs
  \<open>translate_po_file\<close> on that argument; with more than one the parser stops the program
  and nothing is run. (Arguments are strings that do not start with \<open>-\<close>.)
\<close>

theorem cli_optional_filepath:
  "default_filepath = ''/opt/odoo18/projects/bb/bbb/i18n/ar_001.po'' \<and>
   main env [] =
     Ran [Print (''No filepath provided via command line. Using default: '' @ default_filepath)]
         default_filepath (translate_po_file env default_filepath) \<and>
   (\<not> option_string a \<longrightarrow> main env [a] = Ran [] a (translate_po_file env a)) \<and>
   (\<not> list_ex option_string argv \<and> 2 \<le> length argv \<longrightarrow>
      parse_args argv = Usage_error \<and> main env argv = Parser_exit)"
proof -
  have "main env [] =
     Ran [Print (''No filepath provided via command line. Using default: '' @ default_filepath)]
         default_filepath (translate_po_file env default_filepath)"
    by (simp add: main_def parse_args_def)
  moreover have "main env [a] = Ran [] a (translate_po_file env a)" if "\<not> option_string a"
    using that by (simp add: main_def parse_args_def)
  moreover have "parse_args argv = Usage_error \<and> main env argv = Parser_exit"
    if "\<not> list_ex option_string argv \<and> 2 \<le> length argv"
  proof -
    have "Suc (Suc 0) \<le> length argv"
      using that by simp
    then obtain a b rest where "argv = a # b # rest"
      by (auto simp: Suc_le_length_iff)
    then show ?thesis
      using that by (simp add: main_def parse_args_def)
  qed
  ultimately show ?thesis
    by (simp add: default_filepath_def)
qed

theorem cli_optional_filepath_witness:
  "main demo_env [] =
     Ran [Print ''No filepath provided via command line. Using default: /opt/odoo18/projects/bb/bbb/i18n/ar_001.po'']
         ''/opt/odoo18/projects/bb/bbb/i18n/ar_001.po''
         (translate_po_file demo_env ''/opt/odoo18/projects/bb/bbb/i18n/ar_001.po'') \<and>
   \<not> option_string ''ar.po'' \<and>
   main demo_env [''ar.po''] = Ran [] ''ar.po'' (translate_po_file demo_env ''ar.po'') \<and>
   \<not> list_ex option_string [''ar.po'', ''fr.po''] \<and> 2 \<le> length [''ar.po'', ''fr.po''] \<and>
   main demo_env [''ar.po'', ''fr.po''] = Parser_exit"
proof -
  have h1: "\<not> option_string ''ar.po''"
    by simp
  have h2: "\<not> list_ex option_string [''ar.po'', ''fr.po''] \<and> 2 \<le> length [''ar.po'', ''fr.po'']"
    by simp
  show ?thesis
    using h1 h2 cli_optional_filepath [of demo_env "''ar.po''" "[''ar.po'', ''fr.po'']"]
    by (simp add: default_filepath_def)
qed

subsection \<open>The order of the calls, the delay and the save\<close>

lemma delayed_nth:
  "delayed prev evs \<Longrightarrow> j < length evs \<Longrightarrow> evs ! j = Translate t l \<Longrightarrow>
   (if j = 0 then prev = Some (Sleep (1 / 2)) else evs ! (j - 1) = Sleep (1 / 2))"
proof (induction evs arbitrary: prev j)
  case Nil
  then show ?case by simp
next
  case (Cons ev evs)
  show ?case
  proof (cases j)
    case 0
    then show ?thesis using Cons.prems by simp
  next
    case (Suc j')
    have d: "delayed (Some ev) evs"
      using Cons.prems(1) by (cases ev) simp_all
    have "if j' = 0 then Some ev = Some (Sleep (1 / 2)) else evs ! (j' - 1) = Sleep (1 / 2)"
      using Cons.IH [OF d, of j'] Cons.prems(2,3) Suc by simp
    then show ?thesis
      using Suc by (cases j') (simp_all split: if_splits)
  qed
qed

text \<open>
  C8. The translation service is called once for each entry to translate, in the order of
  the work list, which is the order of the catalog: the texts sent are the \<open>msgid\<close>s of the
  eligible entries in catalog order. In the effects of any run, every call of the service
  comes directly after a call of \<^verbatim>\<open>time.sleep\<close> with half a second, so there is a sleep
  between any two calls.
\<close>

theorem calls_in_order_after_sleep:
  "delayed None (events (translate_po_file env filepath)) \<and>
   (j < length (events (translate_po_file env filepath)) \<and>
    events (translate_po_file env filepath) ! j = Translate t l \<longrightarrow>
      0 < j \<and> events (translate_po_file env filepath) ! (j - 1) = Sleep (1 / 2)) \<and>
   (pofile env filepath = Inr po \<and> new_translator env = Inr w \<longrightarrow>
      calls (events (translate_po_file env filepath)) =
        map (\<lambda>r. msgid (po ! r)) (entries_to_translate (scan_catalog filepath po)) \<and>
      entries_to_translate (scan_catalog filepath po) =
        filter (\<lambda>r. eligible (po ! r)) [0..<length po] \<and>
      sorted_wrt (<) (entries_to_translate (scan_catalog filepath po)))"
proof -
  have d: "delayed None (events (translate_po_file env filepath))"
    by (rule delayed_translate_po_file)
  have "0 < j \<and> events (translate_po_file env filepath) ! (j - 1) = Sleep (1 / 2)"
    if "j < length (events (translate_po_file env filepath)) \<and>
        events (translate_po_file env filepath) ! j = Translate t l"
    using delayed_nth [OF d, of j t l] that by (cases "j = 0") simp_all
  moreover have "calls (events (translate_po_file env filepath)) =
        map (\<lambda>r. msgid (po ! r)) (entries_to_translate (scan_catalog filepath po))"
    if "pofile env filepath = Inr po \<and> new_translator env = Inr w"
    using that by (simp add: calls_translate_po_file calls_try_body translate_all_calls)
  moreover have "entries_to_translate (scan_catalog filepath po) =
        filter (\<lambda>r. eligible (po ! r)) [0..<length po]"
    by (rule entries_to_translate_scan)
  moreover have "sorted_wrt (<) (entries_to_translate (scan_catalog filepath po))"
    by (rule todo_sorted)
  ultimately show ?thesis
    using d by blast
qed

lemma demo_events_8: "events (translate_po_file demo_env ''ar.po'') ! 8 = Translate ''Hello'' ''ar''"
  by code_simp

lemma demo_events_length: "8 < length (events (translate_po_file demo_env ''ar.po''))"
  by code_simp

theorem calls_in_order_after_sleep_witness:
  "8 < length (events (translate_po_file demo_env ''ar.po'')) \<and>
   events (translate_po_file demo_env ''ar.po'') ! 8 = Translate ''Hello'' ''ar'' \<and>
   events (translate_po_file demo_env ''ar.po'') ! (8 - 1) = Sleep (1 / 2) \<and>
   pofile demo_env ''ar.po'' = Inr demo_po \<and> new_translator demo_env = Inr 0 \<and>
   calls (events (translate_po_file demo_env ''ar.po'')) =
     map (\<lambda>r. msgid (demo_po ! r)) (entries_to_translate (scan_catalog ''ar.po'' demo_po)) \<and>
   calls (events (translate_po_file demo_env ''ar.po'')) = [''Hello'', ''Bye'', ''Yes'']"
proof -
  have h1: "pofile demo_env ''ar.po'' = Inr demo_po"
    by (simp add: demo_env_def polib_pofile_def demo_files_def)
  have h2: "new_translator demo_env = Inr 0"
    by (simp add: demo_env_def polib_pofile_def demo_files_def)
  have h3: "map (\<lambda>r. msgid (demo_po ! r)) (entries_to_translate (scan_catalog ''ar.po'' demo_po)) =
      [''Hello'', ''Bye'', ''Yes'']"
    by (simp add: demo_todo) (simp add: demo_po_def)
  show ?thesis
    using h1 h2 h3 demo_events_8 demo_events_length
      calls_in_order_after_sleep [of demo_env "''ar.po''" 8 "''Hello''" "''ar''" demo_po 0]
    by simp
qed

text \<open>
  C10. \<open>translate_po_file\<close> calls \<^verbatim>\<open>po.save()\<close> at most once, and only when the count of
  successful translations is positive; it then writes the catalog as it is after the loop.
  The count is the number of entries that the run changed. When it is zero, or when the
  catalog or the translator could not be set up, nothing is saved, and the catalog in
  memory is the catalog as it was loaded.
\<close>

theorem saved_only_when_translated:
  "saves (events (translate_po_file env filepath)) =
     (case pofile env filepath of
        Inl e \<Rightarrow> []
      | Inr po \<Rightarrow>
         (case new_translator env of
            Inl e \<Rightarrow> []
          | Inr w \<Rightarrow>
             if translated_count (translate_all env filepath po w) = 0 then []
             else [catalog (translate_all env filepath po w)])) \<and>
   (pofile env filepath = Inr po \<and> new_translator env = Inr w \<longrightarrow>
      translated_count (translate_all env filepath po w) =
        length (filter (\<lambda>i. catalog (translate_all env filepath po w) ! i \<noteq> po ! i)
                  [0..<length po]) \<and>
      (translated_count (translate_all env filepath po w) = 0 \<longrightarrow>
         (\<forall>q. Save q \<notin> set (events (translate_po_file env filepath))) \<and>
         po_after (translate_po_file env filepath) = Some po) \<and>
      (0 < translated_count (translate_all env filepath po w) \<longrightarrow>
         Save (catalog (translate_all env filepath po w))
           \<in> set (events (translate_po_file env filepath))))"
proof -
  let ?fin = "translate_all env filepath po w"
  have sv: "saves (events (translate_po_file env filepath)) =
     (case pofile env filepath of
        Inl e \<Rightarrow> []
      | Inr po \<Rightarrow>
         (case new_translator env of
            Inl e \<Rightarrow> []
          | Inr w \<Rightarrow>
             if translated_count (translate_all env filepath po w) = 0 then []
             else [catalog (translate_all env filepath po w)]))"
    by (simp add: saves_translate_po_file saves_try_body split: sum.splits)
  have cnt: "translated_count ?fin =
      length (filter (\<lambda>i. catalog ?fin ! i \<noteq> po ! i) [0..<length po])"
    by (rule translate_all_count)
  have zero: "(\<forall>q. Save q \<notin> set (events (translate_po_file env filepath))) \<and>
      po_after (translate_po_file env filepath) = Some po"
    if ok: "pofile env filepath = Inr po \<and> new_translator env = Inr w"
      and z: "translated_count ?fin = 0"
  proof -
    have "filter (\<lambda>i. catalog ?fin ! i \<noteq> po ! i) [0..<length po] = []"
      using cnt z by simp
    then have "\<forall>i < length po. catalog ?fin ! i = po ! i"
      by (auto simp: filter_empty_conv)
    then have "catalog ?fin = po"
      by (intro nth_equalityI) (simp_all add: translate_all_length)
    moreover have "saves (events (translate_po_file env filepath)) = []"
      using sv ok z by simp
    ultimately show ?thesis
      using ok by (simp add: Save_in_saves po_after_translate_po_file)
  qed
  have pos: "Save (catalog ?fin) \<in> set (events (translate_po_file env filepath))"
    if "pofile env filepath = Inr po \<and> new_translator env = Inr w"
      and "0 < translated_count ?fin"
    using sv that by (simp add: Save_in_saves)
  show ?thesis
    using sv cnt zero pos by blast
qed

lemma silent_count: "translated_count (translate_all silent_env ''ar.po'' demo_po 0) = 0"
  by code_simp

lemma demo_count: "translated_count (translate_all demo_env ''ar.po'' demo_po 0) = 2"
  by code_simp

theorem saved_only_when_translated_witness:
  "pofile silent_env ''ar.po'' = Inr demo_po \<and> new_translator silent_env = Inr 0 \<and>
   translated_count (translate_all silent_env ''ar.po'' demo_po 0) = 0 \<and>
   (\<forall>q. Save q \<notin> set (events (translate_po_file silent_env ''ar.po''))) \<and>
   po_after (translate_po_file silent_env ''ar.po'') = Some demo_po \<and>
   pofile demo_env ''ar.po'' = Inr demo_po \<and> new_translator demo_env = Inr 0 \<and>
   0 < translated_count (translate_all demo_env ''ar.po'' demo_po 0) \<and>
   saves (events (translate_po_file demo_env ''ar.po'')) =
     [catalog (translate_all demo_env ''ar.po'' demo_po 0)]"
proof -
  have s1: "pofile silent_env ''ar.po'' = Inr demo_po"
    by (simp add: silent_env_def demo_env_def polib_pofile_def demo_files_def)
  have s2: "new_translator silent_env = Inr 0"
    by (simp add: silent_env_def demo_env_def polib_pofile_def demo_files_def)
  have d1: "pofile demo_env ''ar.po'' = Inr demo_po"
    by (simp add: demo_env_def polib_pofile_def demo_files_def)
  have d2: "new_translator demo_env = Inr 0"
    by (simp add: demo_env_def polib_pofile_def demo_files_def)
  show ?thesis
    using s1 s2 d1 d2 silent_count demo_count
      saved_only_when_translated [of silent_env "''ar.po''" demo_po 0]
      saved_only_when_translated [of demo_env "''ar.po''" demo_po 0]
    by simp
qed

end
